theory Spec2Isabelle
  imports Complex_Main
begin

section \<open>LockN Listen, PANNs audio tagging API (src/panns-api/api.py)\<close>

text \<open>
  A shallow embedding of the two request handlers \<open>classify_audio\<close> and
  \<open>detect_events\<close> of \<open>src/panns-api/api.py\<close>. Probabilities, confidences and
  timestamps are Python and numpy floats in the source; they are modelled as exact reals,
  so the theorems below speak of the arithmetic the code writes down, not of its rounding.
  Python's unbounded integers are \<open>int\<close>.
\<close>

subsection \<open>Errors\<close>

text \<open>
  Python exceptions raised inside the handlers' \<open>try\<close> blocks. \<open>InferenceError\<close> stands
  for any exception of \<open>model.inference\<close>. The handlers turn each of them into the same
  502 response, so only their presence matters.
\<close>

datatype py_error = ValueError | IndexError | InferenceError

datatype ErrorCodes =
  VALIDATION_MISSING_FIELD
  | LISTEN_INVALID_AUDIO_FORMAT
  | LISTEN_MODEL_NOT_LOADED
  | LISTEN_CLASSIFICATION_FAILED

text \<open>
  \<open>LockNHTTPException\<close> with its error code and HTTP status; the message and the details
  dictionary, which quote the text of the underlying exception, are left out.
\<close>

record LockNHTTPException =
  code :: ErrorCodes
  status_code :: nat

subsection \<open>Response models\<close>

record TagResult =
  label :: string
  tag_confidence :: real

record ClassifyResponse =
  tags :: "TagResult list"
  duration_seconds :: real

record EventDetection =
  event :: string
  timestamp_ms :: real
  confidence :: real

text \<open>
  \<open>DetectResponse.duration_seconds\<close> is named \<open>detect_duration_seconds\<close> here, since both
  response records live in one name space.
\<close>

record DetectResponse =
  events :: "EventDetection list"
  detect_duration_seconds :: real

subsection \<open>Constants\<close>

text \<open>The sample rate the handlers pass to the decoder, and the table of sports sounds.\<close>

definition sr :: int where
  "sr = 32000"

definition SPORTS_SOUNDS :: "string \<rightharpoonup> string" where
  "SPORTS_SOUNDS = map_of
     [(''Ping-pong ball'', ''bounce''),
      (''Table tennis'', ''game''),
      (''Bouncing'', ''bounce''),
      (''Knock'', ''hit''),
      (''Tap'', ''hit''),
      (''Clapping'', ''point''),
      (''Cheering'', ''point''),
      (''Speech'', ''voice''),
      (''Silence'', ''silence'')]"

subsection \<open>Python and numpy primitives\<close>

text \<open>
  \<open>int(a / b)\<close> for integers \<open>a\<close> and \<open>b > 0\<close>: true division, then truncation towards
  zero (the quotient is taken exactly, without the rounding of the float division).
\<close>

definition py_int_quot :: "int \<Rightarrow> int \<Rightarrow> int" where
  "py_int_quot a b = (if 0 \<le> a then a div b else - ((- a) div b))"

text \<open>
  \<open>range(start, stop, step)\<close>: the values \<open>start, start + step, ...\<close> strictly below
  \<open>stop\<close> for a positive step, strictly above it for a negative one; a zero step raises
  \<open>ValueError\<close>.
\<close>

function range_from :: "int \<Rightarrow> int \<Rightarrow> int \<Rightarrow> int list" where
  "range_from start stop step =
     (if 0 < step \<and> start < stop then start # range_from (start + step) stop step
      else if step < 0 \<and> stop < start then start # range_from (start + step) stop step
      else [])"
  by pat_completeness auto
termination
  by (relation "measure (\<lambda>(start, stop, step).
        if 0 < step then nat (stop - start) else nat (start - stop))") auto

declare range_from.simps [simp del]

definition py_range :: "int \<Rightarrow> int \<Rightarrow> int \<Rightarrow> py_error + int list" where
  "py_range start stop step =
     (if step = 0 then Inl ValueError else Inr (range_from start stop step))"

text \<open>
  The slice \<open>xs[a:]\<close>: a negative \<open>a\<close> counts from the end and is clamped at the start
  of the list; \<open>a = 0\<close> (also written \<open>-0\<close>) is the whole list.
\<close>

definition slice_from :: "int \<Rightarrow> 'a list \<Rightarrow> 'a list" where
  "slice_from a xs =
     (if a < 0 then drop (nat (int (length xs) + a)) xs else drop (nat a) xs)"

text \<open>
  \<open>np.argsort(probs)\<close>: the indices of \<open>probs\<close> in ascending order of probability.
  \<open>argsort\<close> is the result of a stable sort (insertion sort), the one the specification
  assumes. numpy's default kind does not promise the order of equal entries, so \<open>argsort\<close>
  is one admissible result among several wherever probabilities are equal; what depends on
  the order of equal entries is stated over \<open>is_argsort\<close> below.
\<close>

definition argsort :: "real list \<Rightarrow> nat list" where
  "argsort probs = sort_key (\<lambda>i. probs ! i) [0..<length probs]"

subsection \<open>Top predictions of \<open>classify_audio\<close> (api.py, lines 241 to 249)\<close>

text \<open>
  \<^verbatim>\<open>
  top_indices = np.argsort(probs)[-top_k:][::-1]
  tags = [TagResult(label=labels[i], confidence=float(probs[i]))
          for i in top_indices
          if probs[i] > 0.05]
  \<close>
  \<open>selected_indices\<close> are the indices the comprehension keeps; \<open>labels[i]\<close> is read for
  these only and raises \<open>IndexError\<close> beyond the end of \<open>labels\<close>.
\<close>

definition top_indices :: "real list \<Rightarrow> int \<Rightarrow> nat list" where
  "top_indices probs top_k = rev (slice_from (- top_k) (argsort probs))"

definition selected_indices :: "real list \<Rightarrow> int \<Rightarrow> nat list" where
  "selected_indices probs top_k = filter (\<lambda>i. probs ! i > 0.05) (top_indices probs top_k)"

definition top_tags :: "string list \<Rightarrow> real list \<Rightarrow> int \<Rightarrow> py_error + TagResult list" where
  "top_tags labels probs top_k =
     (let kept = selected_indices probs top_k
      in if list_all (\<lambda>i. i < length labels) kept
         then Inr (map (\<lambda>i. \<lparr>label = labels ! i, tag_confidence = probs ! i\<rparr>) kept)
         else Inl IndexError)"

subsection \<open>Top predictions, for any result of \<open>np.argsort\<close>\<close>

text \<open>
  What \<open>np.argsort\<close> promises with its default kind: some permutation of the indices of
  \<open>probs\<close> along which the probabilities ascend. The order of equal entries is left to
  the sorting algorithm. \<open>is_argsort probs order\<close> says that \<open>order\<close> is such a result;
  the functions below are lines 243 to 249 with the result of \<open>np.argsort(probs)\<close> as a
  parameter.
\<close>

definition is_argsort :: "real list \<Rightarrow> nat list \<Rightarrow> bool" where
  "is_argsort probs order \<longleftrightarrow>
     sort order = [0..<length probs] \<and> sorted (map (\<lambda>i. probs ! i) order)"

definition top_indices_of :: "nat list \<Rightarrow> int \<Rightarrow> nat list" where
  "top_indices_of order top_k = rev (slice_from (- top_k) order)"

definition selected_indices_of :: "real list \<Rightarrow> nat list \<Rightarrow> int \<Rightarrow> nat list" where
  "selected_indices_of probs order top_k =
     filter (\<lambda>i. probs ! i > 0.05) (top_indices_of order top_k)"

definition top_tags_of ::
  "string list \<Rightarrow> real list \<Rightarrow> nat list \<Rightarrow> int \<Rightarrow> py_error + TagResult list" where
  "top_tags_of labels probs order top_k =
     (let kept = selected_indices_of probs order top_k
      in if list_all (\<lambda>i. i < length labels) kept
         then Inr (map (\<lambda>i. \<lparr>label = labels ! i, tag_confidence = probs ! i\<rparr>) kept)
         else Inl IndexError)"

subsection \<open>Sliding window detection of \<open>detect_events\<close> (api.py, lines 312 to 332)\<close>

text \<open>
  \<^verbatim>\<open>
  window_samples = int(window_ms * sr / 1000)
  hop_samples = window_samples // 2
  for start in range(0, len(audio) - window_samples, hop_samples):
      chunk = audio[start:start + window_samples]
      clipwise_output, _ = model.inference(chunk[None, :])
      probs = clipwise_output[0]
      timestamp_ms = (start / sr) * 1000
      for i, prob in enumerate(probs):
          label = labels[i]
          if label in SPORTS_SOUNDS and prob > 0.3:
              detected_events.append(EventDetection(
                  event=SPORTS_SOUNDS[label], timestamp_ms=timestamp_ms,
                  confidence=float(prob)))
  \<close>
\<close>

definition window_samples :: "int \<Rightarrow> int" where
  "window_samples window_ms = py_int_quot (window_ms * sr) 1000"

definition hop_samples :: "int \<Rightarrow> int" where
  "hop_samples window_ms = window_samples window_ms div 2"

text \<open>The start offsets the loop visits in a clip of \<open>n\<close> samples.\<close>

definition window_starts :: "int \<Rightarrow> int \<Rightarrow> py_error + int list" where
  "window_starts n window_ms =
     py_range 0 (n - window_samples window_ms) (hop_samples window_ms)"

text \<open>
  The inner loop over \<open>enumerate(probs)\<close>, from index \<open>i\<close> on: the events of one window,
  in vocabulary order.
\<close>

fun scan_probs :: "string list \<Rightarrow> real \<Rightarrow> nat \<Rightarrow> real list \<Rightarrow> py_error + EventDetection list" where
  "scan_probs labels ts i [] = Inr []"
| "scan_probs labels ts i (prob # probs) =
     (if length labels \<le> i then Inl IndexError
      else (case scan_probs labels ts (Suc i) probs of
              Inl e \<Rightarrow> Inl e
            | Inr evs \<Rightarrow>
                (case SPORTS_SOUNDS (labels ! i) of
                   None \<Rightarrow> Inr evs
                 | Some name \<Rightarrow>
                     if prob > 0.3
                     then Inr (\<lparr>event = name, timestamp_ms = ts, confidence = prob\<rparr> # evs)
                     else Inr evs)))"

subsection \<open>The model and the environment of a request\<close>

text \<open>
  The PANNs model is a parameter: its label vocabulary and its inference function, which
  returns the clipwise probabilities of a buffer of samples, or \<open>None\<close> when it raises.
  The environment of a request holds the audio decoder (\<open>librosa.load\<close> on the bytes that
  were written to the temporary file, \<open>None\<close> when it raises) and the outcome of
  \<open>get_model\<close> (\<open>None\<close> when loading the model raises).
\<close>

record Model =
  labels :: "string list"
  inference :: "real list \<Rightarrow> real list option"

record Env =
  load :: "string \<Rightarrow> real list option"
  get_model :: "Model option"

subsection \<open>The loop over the windows\<close>

text \<open>
  The outer loop over the window starts. Inside the loop \<open>start\<close> and the window length
  are never negative, so the slice \<open>audio[start:start + window_samples]\<close> is a \<open>take\<close>
  after a \<open>drop\<close>. An exception in any window ends the request.
\<close>

fun detect_loop :: "Model \<Rightarrow> real list \<Rightarrow> int \<Rightarrow> int list \<Rightarrow> py_error + EventDetection list" where
  "detect_loop model audio ws [] = Inr []"
| "detect_loop model audio ws (start # starts) =
     (case inference model (take (nat ws) (drop (nat start) audio)) of
        None \<Rightarrow> Inl InferenceError
      | Some probs \<Rightarrow>
          (case scan_probs (labels model) (of_int start / of_int sr * 1000) 0 probs of
             Inl e \<Rightarrow> Inl e
           | Inr evs \<Rightarrow>
               (case detect_loop model audio ws starts of
                  Inl e \<Rightarrow> Inl e
                | Inr rest \<Rightarrow> Inr (evs @ rest))))"

definition detect_windows :: "Model \<Rightarrow> real list \<Rightarrow> int \<Rightarrow> py_error + EventDetection list" where
  "detect_windows model audio window_ms =
     (case window_starts (int (length audio)) window_ms of
        Inl e \<Rightarrow> Inl e
      | Inr starts \<Rightarrow> detect_loop model audio (window_samples window_ms) starts)"

subsection \<open>Deduplication of nearby events (api.py, lines 334 to 340)\<close>

text \<open>
  \<^verbatim>\<open>
  deduped = []
  for event in detected_events:
      if not deduped or event.timestamp_ms - deduped[-1].timestamp_ms > window_ms:
          deduped.append(event)
      elif event.confidence > deduped[-1].confidence:
          deduped[-1] = event
  \<close>
  One iteration of the loop is \<open>dedup_step\<close>; the list \<open>deduped\<close> is the state
  threaded through the loop. \<open>deduped[-1]\<close> is read only when the list is not empty.
\<close>

definition dedup_step :: "int \<Rightarrow> EventDetection list \<Rightarrow> EventDetection \<Rightarrow> EventDetection list" where
  "dedup_step window_ms deduped ev =
     (if deduped = [] \<or> timestamp_ms ev - timestamp_ms (last deduped) > of_int window_ms
      then deduped @ [ev]
      else if confidence ev > confidence (last deduped)
      then butlast deduped @ [ev]
      else deduped)"

definition dedup :: "int \<Rightarrow> EventDetection list \<Rightarrow> EventDetection list" where
  "dedup window_ms detected_events = foldl (dedup_step window_ms) [] detected_events"

subsection \<open>The request handlers\<close>

text \<open>
  The file system is the set of paths that exist. \<open>tempfile.NamedTemporaryFile\<close> with
  \<open>delete=False\<close> creates the file \<open>tmp_path\<close> and leaves it in place when the \<open>with\<close>
  block is left, also by an exception. The handler's \<open>finally\<close> clause is
  \<^verbatim>\<open>
  if os.path.exists(tmp_path):
      os.unlink(tmp_path)
  \<close>
  A handler takes the file system and returns its response, or the exception it raises,
  together with the file system it leaves behind.
\<close>

definition unlink_if_exists :: "string \<Rightarrow> string set \<Rightarrow> string set" where
  "unlink_if_exists tmp_path fs = (if tmp_path \<in> fs then fs - {tmp_path} else fs)"

text \<open>The body of the \<open>try\<close> block of \<open>classify_audio\<close>, lines 222 to 261.\<close>

definition classify_try :: "Env \<Rightarrow> string \<Rightarrow> int \<Rightarrow> LockNHTTPException + ClassifyResponse" where
  "classify_try env content top_k =
     (case load env content of
        None \<Rightarrow> Inl \<lparr>code = LISTEN_INVALID_AUDIO_FORMAT, status_code = 400\<rparr>
      | Some audio \<Rightarrow>
          (case get_model env of
             None \<Rightarrow> Inl \<lparr>code = LISTEN_MODEL_NOT_LOADED, status_code = 503\<rparr>
           | Some model \<Rightarrow>
               (case inference model audio of
                  None \<Rightarrow> Inl \<lparr>code = LISTEN_CLASSIFICATION_FAILED, status_code = 502\<rparr>
                | Some probs \<Rightarrow>
                    (case top_tags (labels model) probs top_k of
                       Inl e \<Rightarrow> Inl \<lparr>code = LISTEN_CLASSIFICATION_FAILED, status_code = 502\<rparr>
                     | Inr ts \<Rightarrow>
                         Inr \<lparr>tags = ts,
                              duration_seconds = of_nat (length audio) / of_int sr\<rparr>))))"

text \<open>
  \<open>classify_audio\<close>, lines 197 to 264. The check of the empty payload sits inside the
  \<open>with\<close> block, after the temporary file was created and before the \<open>try\<close> block.
\<close>

definition classify_audio ::
  "Env \<Rightarrow> string set \<Rightarrow> string \<Rightarrow> string option \<Rightarrow> string \<Rightarrow> int \<Rightarrow>
     (LockNHTTPException + ClassifyResponse) \<times> string set" where
  "classify_audio env fs tmp_path filename content top_k =
     (if filename = None \<or> filename = Some []
      then (Inl \<lparr>code = VALIDATION_MISSING_FIELD, status_code = 400\<rparr>, fs)
      else if content = []
      then (Inl \<lparr>code = LISTEN_INVALID_AUDIO_FORMAT, status_code = 400\<rparr>, insert tmp_path fs)
      else (classify_try env content top_k, unlink_if_exists tmp_path (insert tmp_path fs)))"

text \<open>
  The body of the \<open>try\<close> block of \<open>detect_events\<close>, lines 294 to 352. The parameter
  \<open>events\<close> of the handler is passed along as the source has it in scope.
\<close>

definition detect_try ::
  "Env \<Rightarrow> string \<Rightarrow> string list option \<Rightarrow> int \<Rightarrow> LockNHTTPException + DetectResponse" where
  "detect_try env content events_filter window_ms =
     (case load env content of
        None \<Rightarrow> Inl \<lparr>code = LISTEN_INVALID_AUDIO_FORMAT, status_code = 400\<rparr>
      | Some audio \<Rightarrow>
          (case get_model env of
             None \<Rightarrow> Inl \<lparr>code = LISTEN_MODEL_NOT_LOADED, status_code = 503\<rparr>
           | Some model \<Rightarrow>
               (case detect_windows model audio window_ms of
                  Inl e \<Rightarrow> Inl \<lparr>code = LISTEN_CLASSIFICATION_FAILED, status_code = 502\<rparr>
                | Inr detected_events \<Rightarrow>
                    Inr \<lparr>events = dedup window_ms detected_events,
                         detect_duration_seconds = of_nat (length audio) / of_int sr\<rparr>)))"

text \<open>
  \<open>detect_events\<close>, lines 268 to 355; \<open>events_filter\<close> is the handler's parameter
  \<open>events\<close> (the name of the response field in this theory).
\<close>

definition detect_events ::
  "Env \<Rightarrow> string set \<Rightarrow> string \<Rightarrow> string option \<Rightarrow> string \<Rightarrow> string list option \<Rightarrow> int \<Rightarrow>
     (LockNHTTPException + DetectResponse) \<times> string set" where
  "detect_events env fs tmp_path filename content events_filter window_ms =
     (if filename = None \<or> filename = Some []
      then (Inl \<lparr>code = VALIDATION_MISSING_FIELD, status_code = 400\<rparr>, fs)
      else if content = []
      then (Inl \<lparr>code = LISTEN_INVALID_AUDIO_FORMAT, status_code = 400\<rparr>, insert tmp_path fs)
      else (detect_try env content events_filter window_ms,
            unlink_if_exists tmp_path (insert tmp_path fs)))"

section \<open>The sliding window loop\<close>

text \<open>With the sample rate 32000 a window has 32 samples per millisecond, a hop 16.\<close>

lemma window_samples_eq: "window_samples w = 32 * w"
proof (cases "0 \<le> w * sr")
  case True
  have "(w * sr) div 1000 = ((32 * w) * 1000) div 1000" by (simp add: sr_def)
  also have "\<dots> = 32 * w" by (rule nonzero_mult_div_cancel_right) simp
  finally show ?thesis using True by (simp add: window_samples_def py_int_quot_def)
next
  case False
  have "(- (w * sr)) div 1000 = ((- (32 * w)) * 1000) div 1000" by (simp add: sr_def)
  also have "\<dots> = - (32 * w)" by (rule nonzero_mult_div_cancel_right) simp
  finally show ?thesis using False by (simp add: window_samples_def py_int_quot_def)
qed

lemma hop_samples_eq: "hop_samples w = 16 * w"
  by (simp add: hop_samples_def window_samples_eq)

lemma range_from_empty: "stop \<le> start \<Longrightarrow> 0 < step \<Longrightarrow> range_from start stop step = []"
  by (subst range_from.simps) simp

lemma range_from_Cons:
  "start < stop \<Longrightarrow> 0 < step \<Longrightarrow>
   range_from start stop step = start # range_from (start + step) stop step"
  by (subst range_from.simps) simp

lemma length_range_from:
  "0 < step \<Longrightarrow> int (length (range_from start stop step)) =
     (if start < stop then (stop - start - 1) div step + 1 else 0)"
proof (induction start stop step rule: range_from.induct)
  case (1 start stop step)
  show ?case
  proof (cases "start < stop")
    case False
    then show ?thesis using 1(3) by (simp add: range_from_empty)
  next
    case True
    note lt = True
    have ih: "int (length (range_from (start + step) stop step)) =
                (if start + step < stop then (stop - (start + step) - 1) div step + 1 else 0)"
      using 1(1) [OF _ 1(3)] lt 1(3) by simp
    show ?thesis
    proof (cases "start + step < stop")
      case True
      have "(stop - start - 1) div step = (stop - (start + step) - 1 + step) div step"
        by (simp add: algebra_simps)
      also have "\<dots> = (stop - (start + step) - 1) div step + 1"
        using 1(3) by (simp only: div_add_self2) 
      finally show ?thesis using ih True lt 1(3) by (simp add: range_from_Cons)
    next
      case False
      then have "0 \<le> stop - start - 1" "stop - start - 1 < step" using lt by simp_all
      then have "(stop - start - 1) div step = 0" by (rule div_pos_pos_trivial)
      then show ?thesis using ih False lt 1(3) by (simp add: range_from_Cons)
    qed
  qed
qed

lemma range_from_bounds:
  "0 < step \<Longrightarrow> x \<in> set (range_from start stop step) \<Longrightarrow> start \<le> x \<and> x < stop"
proof (induction start stop step rule: range_from.induct)
  case (1 start stop step)
  show ?case
  proof (cases "start < stop")
    case True
    with 1(3,4) have "x = start \<or> x \<in> set (range_from (start + step) stop step)"
      by (simp add: range_from_Cons)
    then show ?thesis
    proof
      assume "x = start" with True show ?thesis by simp
    next
      assume "x \<in> set (range_from (start + step) stop step)"
      from 1(1) [OF _ 1(3) this] True 1(3) show ?thesis by simp
    qed
  next
    case False
    with 1(3,4) show ?thesis by (simp add: range_from_empty)
  qed
qed

text \<open>
  The number of windows the loop classifies in a clip of \<open>n\<close> samples, for a positive
  \<open>window_ms\<close>: with \<open>W\<close> the window length and \<open>H\<close> the hop, it is
  \<open>(n - W - 1) div H + 1\<close> when \<open>W < n\<close> and \<open>0\<close> otherwise, and every start it visits
  has \<open>start + W < n\<close>.
\<close>

lemma window_count:
  assumes "0 < window_ms"
  shows "\<exists>starts. window_starts n window_ms = Inr starts \<and>
     int (length starts) =
       (if window_samples window_ms < n
        then (n - window_samples window_ms - 1) div hop_samples window_ms + 1 else 0)"
  using assms
  by (simp add: window_starts_def py_range_def hop_samples_eq length_range_from)

lemma window_starts_strict:
  assumes "0 < window_ms" "window_starts n window_ms = Inr starts" "start \<in> set starts"
  shows "0 \<le> start \<and> start + window_samples window_ms < n"
proof -
  have h: "0 < hop_samples window_ms" using assms(1) by (simp add: hop_samples_eq)
  have "starts = range_from 0 (n - window_samples window_ms) (hop_samples window_ms)"
    using assms(2) h by (simp add: window_starts_def py_range_def)
  with assms(3) range_from_bounds [OF h] show ?thesis by fastforce
qed

lemma window_starts_clip_is_window:
  "0 < window_ms \<Longrightarrow> window_starts (window_samples window_ms) window_ms = Inr []"
  by (simp add: window_starts_def py_range_def hop_samples_eq range_from_empty)

lemma window_starts_two_windows: "window_starts 32000 500 = Inr [0, 8000]"
  by (simp add: window_starts_def py_range_def window_samples_eq hop_samples_eq range_from.simps)

lemma window_starts_zero_window_ms: "window_starts n 0 = Inl ValueError"
  by (simp add: window_starts_def py_range_def hop_samples_eq)

text \<open>
  Claim C1. The claim: for a clip of \<open>N\<close> samples, window length \<open>W\<close> and hop
  \<open>H = W / 2\<close>, the loop classifies \<open>floor((N - W) / H) + 1\<close> windows when \<open>N \<ge> W\<close>,
  every start with \<open>start + W \<le> N\<close> included, and a clip whose length equals the window
  length yields exactly one window. The loop runs over
  \<open>range(0, len(audio) - window_samples, hop_samples)\<close>, whose stop is exclusive: with
  \<open>window_ms = 500\<close> the window has 16000 samples, and a clip of 16000 samples yields
  no start at all, so no window is classified and no event is detected, whatever the
  model is.
\<close>

theorem clip_of_window_length_has_no_window:
  "window_samples 500 = 16000 \<and>
   window_starts 16000 500 = Inr [] \<and>
   detect_windows model (replicate 16000 x) 500 = Inr []"
  by (simp add: detect_windows_def window_starts_def py_range_def window_samples_eq
      hop_samples_eq range_from_empty)

section \<open>The top predictions\<close>

text \<open>
  The insertion sort behind \<open>argsort\<close> is stable: on the indices \<open>0, 1, ...\<close> it yields
  them in ascending order of probability, equal probabilities in ascending index order.
\<close>

lemma insort_key_stable_order:
  fixes f :: "nat \<Rightarrow> real"
  assumes "sorted_wrt (\<lambda>i j. f i < f j \<or> (f i = f j \<and> i < j)) ys"
    and "\<forall>y \<in> set ys. x < y"
  shows "sorted_wrt (\<lambda>i j. f i < f j \<or> (f i = f j \<and> i < j)) (insort_key f x ys)"
  using assms
proof (induction ys)
  case Nil
  then show ?case by simp
next
  case (Cons y ys)
  show ?case
  proof (cases "f x \<le> f y")
    case True
    have "\<forall>z \<in> set (y # ys). f x < f z \<or> (f x = f z \<and> x < z)"
    proof
      fix z assume z: "z \<in> set (y # ys)"
      have "f y \<le> f z" using z Cons.prems(1) by auto
      with True have "f x \<le> f z" by simp
      moreover have "x < z" using z Cons.prems(2) by auto
      ultimately show "f x < f z \<or> (f x = f z \<and> x < z)" by auto
    qed
    with True Cons.prems(1) show ?thesis by simp
  next
    case False
    have ih: "sorted_wrt (\<lambda>i j. f i < f j \<or> (f i = f j \<and> i < j)) (insort_key f x ys)"
      using Cons.IH Cons.prems by simp
    have "\<forall>z \<in> set (insort_key f x ys). f y < f z \<or> (f y = f z \<and> y < z)"
      using False Cons.prems(1) by (auto simp add: set_insort_key)
    with False ih show ?thesis by simp
  qed
qed

lemma sort_key_stable_order:
  fixes f :: "nat \<Rightarrow> real"
  shows "sorted_wrt (<) xs \<Longrightarrow>
    sorted_wrt (\<lambda>i j. f i < f j \<or> (f i = f j \<and> i < j)) (sort_key f xs)"
proof (induction xs)
  case Nil
  then show ?case by simp
next
  case (Cons x xs)
  then show ?case by (simp add: insort_key_stable_order)
qed

lemma argsort_stable_order:
  "sorted_wrt (\<lambda>i j. probs ! i < probs ! j \<or> (probs ! i = probs ! j \<and> i < j)) (argsort probs)"
  unfolding argsort_def by (rule sort_key_stable_order) (simp add: sorted_wrt_upt)

lemma length_argsort: "length (argsort probs) = length probs"
  by (simp add: argsort_def)

lemma set_argsort: "set (argsort probs) = {0..<length probs}"
  by (simp add: argsort_def)

lemma slice_from_sorted: "sorted_wrt R xs \<Longrightarrow> sorted_wrt R (slice_from a xs)"
  by (simp add: slice_from_def)

lemma top_indices_order:
  "sorted_wrt (\<lambda>i j. probs ! j < probs ! i \<or> (probs ! i = probs ! j \<and> j < i)) (top_indices probs top_k)"
proof -
  have "sorted_wrt (\<lambda>i j. probs ! i < probs ! j \<or> (probs ! i = probs ! j \<and> i < j))
          (slice_from (- top_k) (argsort probs))"
    by (rule slice_from_sorted) (rule argsort_stable_order)
  then have "sorted_wrt (\<lambda>j i. probs ! i < probs ! j \<or> (probs ! i = probs ! j \<and> i < j))
          (rev (slice_from (- top_k) (argsort probs)))"
    by (simp add: sorted_wrt_rev)
  then show ?thesis
    unfolding top_indices_def by (rule sorted_wrt_mono_rel [rotated]) auto
qed

lemma selected_indices_order:
  "sorted_wrt (\<lambda>i j. probs ! j < probs ! i \<or> (probs ! i = probs ! j \<and> j < i)) (selected_indices probs top_k)"
  unfolding selected_indices_def by (rule sorted_wrt_filter) (rule top_indices_order)

lemma set_top_indices: "set (top_indices probs top_k) \<subseteq> {0..<length probs}"
proof -
  have "set (slice_from (- top_k) (argsort probs)) \<subseteq> set (argsort probs)"
    by (auto simp add: slice_from_def dest: in_set_dropD)
  then show ?thesis by (simp add: top_indices_def set_argsort)
qed

lemma set_selected_indices: "set (selected_indices probs top_k) \<subseteq> {0..<length probs}"
  using set_top_indices [of probs top_k] by (auto simp add: selected_indices_def)

lemma top_indices_pos:
  "0 < top_k \<Longrightarrow> top_indices probs top_k = take (nat top_k) (rev (argsort probs))"
proof -
  assume k: "0 < top_k"
  have "length probs - nat (int (length probs) - top_k) = min (nat top_k) (length probs)"
    using k by linarith
  then show ?thesis
    using k by (simp add: top_indices_def slice_from_def rev_drop length_argsort min_def)
qed

lemma top_indices_clamped:
  "int (length probs) \<le> top_k \<Longrightarrow> top_indices probs top_k = rev (argsort probs)"
  by (simp add: top_indices_def slice_from_def length_argsort)

lemma length_filter_take_desc:
  fixes f :: "nat \<Rightarrow> real"
  shows "sorted_wrt (\<lambda>i j. f j \<le> f i) xs \<Longrightarrow>
    length (filter (\<lambda>i. t < f i) (take m xs)) = min m (length (filter (\<lambda>i. t < f i) xs))"
proof (induction xs arbitrary: m)
  case Nil
  then show ?case by simp
next
  case (Cons x xs)
  show ?case
  proof (cases m)
    case 0
    then show ?thesis by simp
  next
    case (Suc m')
    show ?thesis
    proof (cases "t < f x")
      case True
      with Suc Cons.IH [of m'] Cons.prems show ?thesis by simp
    next
      case False
      have "\<forall>y \<in> set xs. \<not> t < f y" using False Cons.prems by auto
      then have a: "filter (\<lambda>i. t < f i) xs = []" by (simp add: filter_empty_conv)
      have "\<forall>y \<in> set (take m' xs). \<not> t < f y"
        using \<open>\<forall>y \<in> set xs. \<not> t < f y\<close> by (auto dest: in_set_takeD)
      then have b: "filter (\<lambda>i. t < f i) (take m' xs) = []" by (simp add: filter_empty_conv)
      from False Suc a b show ?thesis by simp
    qed
  qed
qed

lemma length_filter_nth:
  "length (filter (\<lambda>i. P (xs ! i)) [0..<length xs]) = length (filter P xs)"
proof -
  have "filter P xs = filter P (map (\<lambda>i. xs ! i) [0..<length xs])" by (simp add: map_nth)
  also have "\<dots> = map (\<lambda>i. xs ! i) (filter (\<lambda>i. P (xs ! i)) [0..<length xs])"
    by (simp add: filter_map comp_def)
  finally show ?thesis by simp
qed

lemma length_filter_argsort:
  "length (filter (\<lambda>i. P (probs ! i)) (argsort probs)) = length (filter P probs)"
  by (simp add: argsort_def filter_sort length_filter_nth)

lemma length_selected_indices:
  assumes "0 < top_k"
  shows "length (selected_indices probs top_k) =
           min (nat top_k) (length (filter (\<lambda>p. 0.05 < p) probs))"
proof -
  have "sorted_wrt (\<lambda>j i. probs ! i < probs ! j \<or> (probs ! i = probs ! j \<and> i < j)) (rev (argsort probs))"
    using argsort_stable_order [of probs] by (simp add: sorted_wrt_rev)
  then have d: "sorted_wrt (\<lambda>i j. probs ! j \<le> probs ! i) (rev (argsort probs))"
    by (rule sorted_wrt_mono_rel [rotated]) auto
  have "length (selected_indices probs top_k) =
          length (filter (\<lambda>i. 0.05 < probs ! i) (take (nat top_k) (rev (argsort probs))))"
    using assms by (simp add: selected_indices_def top_indices_pos)
  also have "\<dots> = min (nat top_k) (length (filter (\<lambda>i. 0.05 < probs ! i) (rev (argsort probs))))"
    using d by (rule length_filter_take_desc)
  also have "length (filter (\<lambda>i. 0.05 < probs ! i) (rev (argsort probs))) =
               length (filter (\<lambda>i. 0.05 < probs ! i) (argsort probs))"
    by (simp add: rev_filter [symmetric])
  also have "\<dots> = length (filter (\<lambda>p. 0.05 < p) probs)"
    by (rule length_filter_argsort)
  finally show ?thesis .
qed

lemma top_tags_in_range:
  "length probs \<le> length vocabulary \<Longrightarrow>
   top_tags vocabulary probs top_k =
     Inr (map (\<lambda>i. \<lparr>label = vocabulary ! i, tag_confidence = probs ! i\<rparr>)
            (selected_indices probs top_k))"
proof -
  assume len: "length probs \<le> length vocabulary"
  have "\<forall>i \<in> set (selected_indices probs top_k). i < length vocabulary"
    using set_selected_indices [of probs top_k] len by fastforce
  then have "list_all (\<lambda>i. i < length vocabulary) (selected_indices probs top_k)"
    by (simp add: list_all_iff)
  then show ?thesis by (simp add: top_tags_def)
qed

lemma top_tags_clamped:
  "int (length probs) \<le> top_k \<Longrightarrow>
   top_tags vocabulary probs top_k = top_tags vocabulary probs (int (length probs))"
  by (simp add: top_tags_def selected_indices_def top_indices_clamped)

lemma argsort_scenario_E: "argsort [0.9, 0.05, 0.5, 0.01, 0.3] = [3, 1, 4, 2, 0]"
  by (simp add: argsort_def upt_rec)


text \<open>
  Claim C3. The claim: with \<open>top_k \<le> 0\<close> the tag list is empty, and with \<open>top_k\<close>
  above the vocabulary size the operation behaves as if \<open>top_k\<close> were the vocabulary size.
  The second half holds (\<open>top_tags_clamped\<close>). The first does not: the slice
  \<open>[-top_k:]\<close> with \<open>top_k = 0\<close> is \<open>[0:]\<close>, the whole list, and with a negative
  \<open>top_k\<close> it drops the \<open>-top_k\<close> least probable entries and keeps the rest. On the
  probabilities 0.9, 0.05, 0.5, 0.01, 0.3 for the labels A to E, \<open>top_k = 0\<close> returns
  the three tags A, C, E, and \<open>top_k = -4\<close> returns the tag A.
\<close>

theorem top_tags_nonpositive_top_k:
  "top_tags [''A'', ''B'', ''C'', ''D'', ''E''] [0.9, 0.05, 0.5, 0.01, 0.3] 0 =
     Inr [\<lparr>label = ''A'', tag_confidence = 0.9\<rparr>, \<lparr>label = ''C'', tag_confidence = 0.5\<rparr>,
          \<lparr>label = ''E'', tag_confidence = 0.3\<rparr>] \<and>
   top_tags [''A'', ''B'', ''C'', ''D'', ''E''] [0.9, 0.05, 0.5, 0.01, 0.3] (- 4) =
     Inr [\<lparr>label = ''A'', tag_confidence = 0.9\<rparr>]"
  unfolding top_tags_def selected_indices_def top_indices_def argsort_scenario_E
  by (simp add: slice_from_def)

text \<open>
  Claim C5. For every probability vector aligned with the vocabulary and every
  \<open>top_k > 0\<close>, the output has exactly \<open>min(top_k, number of entries with probability
  above 0.05)\<close> tags, each with a probability strictly above 0.05, in descending order of
  probability. The probabilities 0.9, 0.05, 0.5, 0.01, 0.3 for the labels A to E with
  \<open>top_k = 3\<close> yield A (0.9), C (0.5), E (0.3), which the theorem after this one
  evaluates.
\<close>

theorem top_tags_count_and_order:
  assumes "0 < top_k" and "length probs \<le> length vocabulary"
  shows "\<exists>tags. top_tags vocabulary probs top_k = Inr tags \<and>
           length tags = min (nat top_k) (length (filter (\<lambda>p. 0.05 < p) probs)) \<and>
           list_all (\<lambda>t. 0.05 < tag_confidence t) tags \<and>
           sorted_wrt (\<lambda>a b. tag_confidence b \<le> tag_confidence a) tags"
proof -
  let ?sel = "selected_indices probs top_k"
  let ?tags = "map (\<lambda>i. \<lparr>label = vocabulary ! i, tag_confidence = probs ! i\<rparr>) ?sel"
  have r: "top_tags vocabulary probs top_k = Inr ?tags"
    using assms(2) by (rule top_tags_in_range)
  have n: "length ?tags = min (nat top_k) (length (filter (\<lambda>p. 0.05 < p) probs))"
    using length_selected_indices [OF assms(1)] by simp
  have f: "list_all (\<lambda>t. 0.05 < tag_confidence t) ?tags"
    by (simp add: list_all_iff selected_indices_def)
  have "sorted_wrt (\<lambda>i j. probs ! j \<le> probs ! i) ?sel"
    using selected_indices_order [of probs top_k]
    by (rule sorted_wrt_mono_rel [rotated]) auto
  then have s: "sorted_wrt (\<lambda>a b. tag_confidence b \<le> tag_confidence a) ?tags"
    by (simp add: sorted_wrt_map)
  from r n f s show ?thesis by blast
qed

theorem top_tags_count_and_order_witness:
  "(0::int) < 3 \<and>
   length [0.9, 0.05, 0.5, 0.01, 0.3 :: real] \<le> length [''A'', ''B'', ''C'', ''D'', ''E''] \<and>
   top_tags [''A'', ''B'', ''C'', ''D'', ''E''] [0.9, 0.05, 0.5, 0.01, 0.3] 3 =
     Inr [\<lparr>label = ''A'', tag_confidence = 0.9\<rparr>, \<lparr>label = ''C'', tag_confidence = 0.5\<rparr>,
          \<lparr>label = ''E'', tag_confidence = 0.3\<rparr>] \<and>
   (\<exists>tags. top_tags [''A'', ''B'', ''C'', ''D'', ''E''] [0.9, 0.05, 0.5, 0.01, 0.3] 3 = Inr tags \<and>
      length tags = min (nat 3) (length (filter (\<lambda>p. 0.05 < p) [0.9, 0.05, 0.5, 0.01, 0.3 :: real])) \<and>
      list_all (\<lambda>t. 0.05 < tag_confidence t) tags \<and>
      sorted_wrt (\<lambda>a b. tag_confidence b \<le> tag_confidence a) tags)"
proof -
  have k: "(0::int) < 3" by simp
  have l: "length [0.9, 0.05, 0.5, 0.01, 0.3 :: real] \<le> length [''A'', ''B'', ''C'', ''D'', ''E'']"
    by simp
  have e: "top_tags [''A'', ''B'', ''C'', ''D'', ''E''] [0.9, 0.05, 0.5, 0.01, 0.3] 3 =
     Inr [\<lparr>label = ''A'', tag_confidence = 0.9\<rparr>, \<lparr>label = ''C'', tag_confidence = 0.5\<rparr>,
          \<lparr>label = ''E'', tag_confidence = 0.3\<rparr>]"
    unfolding top_tags_def selected_indices_def top_indices_def argsort_scenario_E
    by (simp add: slice_from_def)
  from k l e top_tags_count_and_order [OF k l] show ?thesis by blast
qed

section \<open>The top predictions for any result of argsort\<close>

text \<open>
  The stable sort is one admissible result of \<open>np.argsort\<close>, and the functions over
  \<open>argsort\<close> are the instances of the ones that take the result as a parameter.
\<close>

lemma is_argsort_argsort: "is_argsort probs (argsort probs)"
proof -
  have "sort (argsort probs) = [0..<length probs]"
  proof (rule sorted_distinct_set_unique)
    show "sorted (sort (argsort probs))" by simp
    show "distinct (sort (argsort probs))" by (simp add: argsort_def)
    show "sorted [0..<length probs]" by simp
    show "distinct [0..<length probs]" by simp
    show "set (sort (argsort probs)) = set [0..<length probs]" by (simp add: argsort_def)
  qed
  moreover have "sorted (map (\<lambda>i. probs ! i) (argsort probs))"
    by (simp add: argsort_def)
  ultimately show ?thesis by (simp add: is_argsort_def)
qed

lemma top_tags_of_argsort:
  "top_tags vocabulary probs top_k = top_tags_of vocabulary probs (argsort probs) top_k"
  by (simp add: top_tags_def top_tags_of_def selected_indices_def selected_indices_of_def
      top_indices_def top_indices_of_def)

lemma is_argsort_set: "is_argsort probs order \<Longrightarrow> set order = {0..<length probs}"
proof -
  assume "is_argsort probs order"
  then have "set (sort order) = set [0..<length probs]" by (simp add: is_argsort_def)
  then show ?thesis by simp
qed

lemma is_argsort_length: "is_argsort probs order \<Longrightarrow> length order = length probs"
proof -
  assume "is_argsort probs order"
  then have "length (sort order) = length [0..<length probs]" by (simp add: is_argsort_def)
  then show ?thesis by simp
qed

lemma is_argsort_ascending:
  "is_argsort probs order \<Longrightarrow> sorted_wrt (\<lambda>i j. probs ! i \<le> probs ! j) order"
  by (simp add: is_argsort_def sorted_map)

lemma top_indices_of_reverses:
  "sorted_wrt R order \<Longrightarrow> sorted_wrt (\<lambda>i j. R j i) (top_indices_of order top_k)"
proof -
  assume "sorted_wrt R order"
  then have "sorted_wrt R (slice_from (- top_k) order)" by (rule slice_from_sorted)
  then show ?thesis by (simp add: top_indices_of_def sorted_wrt_rev)
qed

lemma selected_indices_of_reverses:
  "sorted_wrt R order \<Longrightarrow> sorted_wrt (\<lambda>i j. R j i) (selected_indices_of probs order top_k)"
  unfolding selected_indices_of_def
  by (rule sorted_wrt_filter) (rule top_indices_of_reverses)

lemma set_selected_indices_of: "set (selected_indices_of probs order top_k) \<subseteq> set order"
  by (auto simp add: selected_indices_of_def top_indices_of_def slice_from_def dest: in_set_dropD)

lemma top_tags_of_in_range:
  assumes "is_argsort probs order" and "length probs \<le> length vocabulary"
  shows "top_tags_of vocabulary probs order top_k =
     Inr (map (\<lambda>i. \<lparr>label = vocabulary ! i, tag_confidence = probs ! i\<rparr>)
            (selected_indices_of probs order top_k))"
proof -
  have "\<forall>i \<in> set (selected_indices_of probs order top_k). i < length vocabulary"
    using set_selected_indices_of [of probs order top_k] is_argsort_set [OF assms(1)] assms(2)
    by fastforce
  then have "list_all (\<lambda>i. i < length vocabulary) (selected_indices_of probs order top_k)"
    by (simp add: list_all_iff)
  then show ?thesis by (simp add: top_tags_of_def)
qed

lemma top_indices_of_pos:
  "0 < top_k \<Longrightarrow> top_indices_of order top_k = take (nat top_k) (rev order)"
proof -
  assume k: "0 < top_k"
  have "length order - nat (int (length order) - top_k) = min (nat top_k) (length order)"
    using k by linarith
  then show ?thesis
    using k by (simp add: top_indices_of_def slice_from_def rev_drop min_def)
qed

lemma length_filter_is_argsort:
  assumes "is_argsort probs order"
  shows "length (filter (\<lambda>i. P (probs ! i)) order) = length (filter P probs)"
proof -
  have "length (filter (\<lambda>i. P (probs ! i)) order) =
          length (sort (filter (\<lambda>i. P (probs ! i)) order))"
    by simp
  also have "\<dots> = length (filter (\<lambda>i. P (probs ! i)) (sort order))"
    by (simp only: filter_sort)
  also have "\<dots> = length (filter (\<lambda>i. P (probs ! i)) [0..<length probs])"
    using assms by (simp add: is_argsort_def)
  also have "\<dots> = length (filter P probs)" by (rule length_filter_nth)
  finally show ?thesis .
qed

text \<open>
  The count, the floor and the descending order of the tags hold for every admissible
  result of \<open>np.argsort\<close>, not for the stable one only.
\<close>

lemma top_tags_of_count_and_order:
  assumes "is_argsort probs order" and "0 < top_k" and "length probs \<le> length vocabulary"
  shows "\<exists>tags. top_tags_of vocabulary probs order top_k = Inr tags \<and>
           length tags = min (nat top_k) (length (filter (\<lambda>p. 0.05 < p) probs)) \<and>
           list_all (\<lambda>t. 0.05 < tag_confidence t) tags \<and>
           sorted_wrt (\<lambda>a b. tag_confidence b \<le> tag_confidence a) tags"
proof -
  let ?sel = "selected_indices_of probs order top_k"
  let ?tags = "map (\<lambda>i. \<lparr>label = vocabulary ! i, tag_confidence = probs ! i\<rparr>) ?sel"
  have r: "top_tags_of vocabulary probs order top_k = Inr ?tags"
    using assms(1,3) by (rule top_tags_of_in_range)
  have d: "sorted_wrt (\<lambda>i j. probs ! j \<le> probs ! i) (rev order)"
    using is_argsort_ascending [OF assms(1)] by (simp add: sorted_wrt_rev)
  have "length ?sel =
          length (filter (\<lambda>i. 0.05 < probs ! i) (take (nat top_k) (rev order)))"
    using assms(2) by (simp add: selected_indices_of_def top_indices_of_pos)
  also have "\<dots> = min (nat top_k) (length (filter (\<lambda>i. 0.05 < probs ! i) (rev order)))"
    using d by (rule length_filter_take_desc)
  also have "length (filter (\<lambda>i. 0.05 < probs ! i) (rev order)) =
               length (filter (\<lambda>i. 0.05 < probs ! i) order)"
    by (simp add: rev_filter [symmetric])
  also have "\<dots> = length (filter (\<lambda>p. 0.05 < p) probs)"
    using assms(1) by (rule length_filter_is_argsort)
  finally have n: "length ?tags = min (nat top_k) (length (filter (\<lambda>p. 0.05 < p) probs))"
    by simp
  have f: "list_all (\<lambda>t. 0.05 < tag_confidence t) ?tags"
    by (simp add: list_all_iff selected_indices_of_def)
  have "sorted_wrt (\<lambda>i j. probs ! j \<le> probs ! i) ?sel"
    using is_argsort_ascending [OF assms(1)] by (rule selected_indices_of_reverses)
  then have s: "sorted_wrt (\<lambda>a b. tag_confidence b \<le> tag_confidence a) ?tags"
    by (simp add: sorted_wrt_map)
  from r n f s show ?thesis by blast
qed




section \<open>The request handlers\<close>

text \<open>
  Once the payload is not empty the handler runs its \<open>try\<close> block, and the \<open>finally\<close>
  clause removes the temporary file on each of its exits: the response, the decode error,
  the missing model and the failed inference. A request without a file name creates no
  temporary file.
\<close>

lemma classify_audio_cleanup:
  "content \<noteq> [] \<Longrightarrow> filename = Some name \<Longrightarrow> name \<noteq> [] \<Longrightarrow>
   snd (classify_audio env fs tmp_path filename content top_k) = fs - {tmp_path}"
  by (simp add: classify_audio_def unlink_if_exists_def)

lemma detect_events_cleanup:
  "content \<noteq> [] \<Longrightarrow> filename = Some name \<Longrightarrow> name \<noteq> [] \<Longrightarrow>
   snd (detect_events env fs tmp_path filename content events_filter window_ms) = fs - {tmp_path}"
  by (simp add: detect_events_def unlink_if_exists_def)

lemma no_filename_no_temp_file:
  "snd (classify_audio env fs tmp_path None content top_k) = fs \<and>
   snd (detect_events env fs tmp_path None content events_filter window_ms) = fs"
  by (simp add: classify_audio_def detect_events_def)

text \<open>
  Claim C2. The claim: every exit path of the classify and detect handlers, the empty
  uploaded payload included, deletes the temporary file the handler created. The check
  for the empty payload raises inside the \<open>with\<close> block, after the file was created with
  \<open>delete=False\<close> and before the \<open>try\<close> block whose \<open>finally\<close> clause unlinks it: on
  an empty payload both handlers answer with status 400 and the temporary file stays in
  the file system.
\<close>

theorem empty_payload_leaves_temp_file:
  "classify_audio env fs tmp_path (Some ''clip.wav'') [] top_k =
     (Inl \<lparr>code = LISTEN_INVALID_AUDIO_FORMAT, status_code = 400\<rparr>, insert tmp_path fs) \<and>
   detect_events env fs tmp_path (Some ''clip.wav'') [] events_filter window_ms =
     (Inl \<lparr>code = LISTEN_INVALID_AUDIO_FORMAT, status_code = 400\<rparr>, insert tmp_path fs) \<and>
   tmp_path \<in> snd (classify_audio env fs tmp_path (Some ''clip.wav'') [] top_k) \<and>
   tmp_path \<in> snd (detect_events env fs tmp_path (Some ''clip.wav'') [] events_filter window_ms)"
  by (simp add: classify_audio_def detect_events_def)

text \<open>
  Claim C9. The event-name filter of the detect-events operation is a no-op: two
  invocations that differ in the value of the parameter \<open>events\<close> only return the same
  response (the same event timeline and duration, or the same error) and leave the same
  file system.
\<close>

theorem detect_events_ignores_filter:
  "detect_events env fs tmp_path filename content events1 window_ms =
   detect_events env fs tmp_path filename content events2 window_ms"
  by (simp add: detect_events_def detect_try_def)

section \<open>The deduplication loop\<close>

lemma dedup_step_Nil: "dedup_step w [] ev = [ev]"
  by (simp add: dedup_step_def)

lemma dedup_step_snoc:
  "dedup_step w (ds @ [d]) ev =
     (if timestamp_ms ev - timestamp_ms d > of_int w then ds @ [d, ev]
      else if confidence ev > confidence d then ds @ [ev] else ds @ [d])"
  by (simp add: dedup_step_def)

text \<open>
  A list whose consecutive entries are already more than \<open>w\<close> apart goes through the
  loop unchanged, whatever prefix \<open>ds\<close> the loop has built so far.
\<close>

lemma foldl_dedup_fixed:
  "successively (\<lambda>a b. timestamp_ms b - timestamp_ms a > of_int w) (ds @ ys) \<Longrightarrow>
   foldl (dedup_step w) ds ys = ds @ ys"
proof (induction ys arbitrary: ds)
  case Nil
  then show ?case by simp
next
  case (Cons y ys)
  have step: "dedup_step w ds y = ds @ [y]"
  proof (cases ds rule: rev_cases)
    case Nil
    then show ?thesis by (simp add: dedup_step_Nil)
  next
    case (snoc bs d)
    with Cons.prems have "timestamp_ms y - timestamp_ms d > of_int w"
      by (simp add: successively_append_iff)
    with snoc show ?thesis by (simp add: dedup_step_snoc)
  qed
  from Cons.prems
  have "successively (\<lambda>a b. timestamp_ms b - timestamp_ms a > of_int w) ((ds @ [y]) @ ys)"
    by simp
  from Cons.IH [OF this] step show ?case by simp
qed

text \<open>
  The loop invariant: the retained list has gaps above \<open>w\<close>, and its last entry is not
  later than any candidate still to come. A replacement moves the last timestamp forward
  only, so the gap to the entry before it can only grow.
\<close>

lemma foldl_dedup_gaps:
  "successively (\<lambda>a b. timestamp_ms b - timestamp_ms a > of_int w) ds \<Longrightarrow>
   sorted (map timestamp_ms xs) \<Longrightarrow>
   (ds \<noteq> [] \<Longrightarrow> \<forall>x \<in> set xs. timestamp_ms (last ds) \<le> timestamp_ms x) \<Longrightarrow>
   successively (\<lambda>a b. timestamp_ms b - timestamp_ms a > of_int w) (foldl (dedup_step w) ds xs)"
proof (induction xs arbitrary: ds)
  case Nil
  then show ?case by simp
next
  case (Cons x xs)
  let ?P = "\<lambda>a b. timestamp_ms b - timestamp_ms a > of_int w"
  have 1: "successively ?P (dedup_step w ds x)"
  proof (cases ds rule: rev_cases)
    case Nil
    then show ?thesis by (simp add: dedup_step_Nil)
  next
    case (snoc bs d)
    have le: "timestamp_ms d \<le> timestamp_ms x" using Cons.prems(3) snoc by simp
    have sb: "successively ?P bs" and bd: "bs \<noteq> [] \<Longrightarrow> ?P (last bs) d"
      using Cons.prems(1) snoc by (simp_all add: successively_append_iff)
    show ?thesis using snoc sb bd le Cons.prems(1)
      by (auto simp add: dedup_step_snoc successively_append_iff)
  qed
  have 2: "sorted (map timestamp_ms xs)" using Cons.prems(2) by simp
  have 3: "\<forall>y \<in> set xs. timestamp_ms (last (dedup_step w ds x)) \<le> timestamp_ms y"
  proof (cases ds rule: rev_cases)
    case Nil
    then show ?thesis using Cons.prems(2) by (simp add: dedup_step_Nil)
  next
    case (snoc bs d)
    then show ?thesis using Cons.prems(2,3) by (auto simp add: dedup_step_snoc)
  qed
  show ?case using Cons.IH [OF 1 2] 3 by simp
qed

lemma dedup_gaps_sorted:
  "sorted (map timestamp_ms xs) \<Longrightarrow>
   successively (\<lambda>a b. timestamp_ms b - timestamp_ms a > of_int w) (dedup w xs)"
  unfolding dedup_def by (rule foldl_dedup_gaps) simp_all

text \<open>
  The loop never reads the field \<open>event\<close>: renaming the candidates commutes with every
  iteration.
\<close>

lemma dedup_step_rename:
  "dedup_step w (map (\<lambda>e. e\<lparr>event := f e\<rparr>) ds) (x\<lparr>event := f x\<rparr>) =
   map (\<lambda>e. e\<lparr>event := f e\<rparr>) (dedup_step w ds x)"
proof (cases ds rule: rev_cases)
  case Nil
  then show ?thesis by (simp add: dedup_step_Nil)
next
  case (snoc bs d)
  then show ?thesis by (simp add: dedup_step_snoc)
qed

lemma foldl_dedup_rename:
  "foldl (dedup_step w) (map (\<lambda>e. e\<lparr>event := f e\<rparr>) ds) (map (\<lambda>e. e\<lparr>event := f e\<rparr>) xs) =
   map (\<lambda>e. e\<lparr>event := f e\<rparr>) (foldl (dedup_step w) ds xs)"
proof (induction xs arbitrary: ds)
  case Nil
  then show ?case by simp
next
  case (Cons x xs)
  show ?case using Cons.IH [of "dedup_step w ds x"] by (simp add: dedup_step_rename)
qed

text \<open>
  Claim C6. For every candidate sequence ordered by non-decreasing timestamp, any two
  consecutive events of the deduplicated timeline are strictly more than \<open>window_ms\<close>
  apart: \<open>e2.timestamp_ms - e1.timestamp_ms > window_ms\<close>.
\<close>

theorem dedup_consecutive_gap:
  "sorted (map timestamp_ms xs) \<Longrightarrow>
   successively (\<lambda>e1 e2. timestamp_ms e2 - timestamp_ms e1 > of_int window_ms) (dedup window_ms xs)"
  by (rule dedup_gaps_sorted)

theorem dedup_consecutive_gap_witness:
  "sorted (map timestamp_ms
     [\<lparr>event = ''bounce'', timestamp_ms = 0, confidence = 0.4\<rparr>,
      \<lparr>event = ''hit'', timestamp_ms = 250, confidence = 0.6\<rparr>,
      \<lparr>event = ''hit'', timestamp_ms = 500, confidence = 0.5\<rparr>,
      \<lparr>event = ''point'', timestamp_ms = 1000, confidence = 0.7\<rparr>]) \<and>
   successively (\<lambda>e1 e2. timestamp_ms e2 - timestamp_ms e1 > of_int 500)
     (dedup 500
       [\<lparr>event = ''bounce'', timestamp_ms = 0, confidence = 0.4\<rparr>,
        \<lparr>event = ''hit'', timestamp_ms = 250, confidence = 0.6\<rparr>,
        \<lparr>event = ''hit'', timestamp_ms = 500, confidence = 0.5\<rparr>,
        \<lparr>event = ''point'', timestamp_ms = 1000, confidence = 0.7\<rparr>]) \<and>
   dedup 500
       [\<lparr>event = ''bounce'', timestamp_ms = 0, confidence = 0.4\<rparr>,
        \<lparr>event = ''hit'', timestamp_ms = 250, confidence = 0.6\<rparr>,
        \<lparr>event = ''hit'', timestamp_ms = 500, confidence = 0.5\<rparr>,
        \<lparr>event = ''point'', timestamp_ms = 1000, confidence = 0.7\<rparr>] =
     [\<lparr>event = ''hit'', timestamp_ms = 250, confidence = 0.6\<rparr>,
      \<lparr>event = ''point'', timestamp_ms = 1000, confidence = 0.7\<rparr>]"
proof -
  let ?xs = "[\<lparr>event = ''bounce'', timestamp_ms = 0, confidence = 0.4\<rparr>,
      \<lparr>event = ''hit'', timestamp_ms = 250, confidence = 0.6\<rparr>,
      \<lparr>event = ''hit'', timestamp_ms = 500, confidence = 0.5\<rparr>,
      \<lparr>event = ''point'', timestamp_ms = 1000, confidence = 0.7\<rparr>]"
  have s: "sorted (map timestamp_ms ?xs)" by simp
  have d: "dedup 500 ?xs =
     [\<lparr>event = ''hit'', timestamp_ms = 250, confidence = 0.6\<rparr>,
      \<lparr>event = ''point'', timestamp_ms = 1000, confidence = 0.7\<rparr>]"
    by (simp add: dedup_def dedup_step_def)
  from s d dedup_consecutive_gap [OF s, of 500] show ?thesis by simp
qed

text \<open>
  Claim C7. The deduplication step is idempotent: for every candidate sequence \<open>xs\<close>
  ordered by non-decreasing timestamp, \<open>dedup (dedup xs) = dedup xs\<close>.
\<close>

theorem dedup_idempotent:
  "sorted (map timestamp_ms xs) \<Longrightarrow> dedup window_ms (dedup window_ms xs) = dedup window_ms xs"
proof -
  assume "sorted (map timestamp_ms xs)"
  then have "successively (\<lambda>a b. timestamp_ms b - timestamp_ms a > of_int window_ms)
               ([] @ dedup window_ms xs)"
    by (simp add: dedup_gaps_sorted)
  then have "foldl (dedup_step window_ms) [] (dedup window_ms xs) = [] @ dedup window_ms xs"
    by (rule foldl_dedup_fixed)
  then show ?thesis by (simp add: dedup_def)
qed

theorem dedup_idempotent_witness:
  "sorted (map timestamp_ms
     [\<lparr>event = ''bounce'', timestamp_ms = 0, confidence = 0.4\<rparr>,
      \<lparr>event = ''hit'', timestamp_ms = 300, confidence = 0.6\<rparr>,
      \<lparr>event = ''voice'', timestamp_ms = 900, confidence = 0.5\<rparr>]) \<and>
   dedup 500 (dedup 500
     [\<lparr>event = ''bounce'', timestamp_ms = 0, confidence = 0.4\<rparr>,
      \<lparr>event = ''hit'', timestamp_ms = 300, confidence = 0.6\<rparr>,
      \<lparr>event = ''voice'', timestamp_ms = 900, confidence = 0.5\<rparr>]) =
   dedup 500
     [\<lparr>event = ''bounce'', timestamp_ms = 0, confidence = 0.4\<rparr>,
      \<lparr>event = ''hit'', timestamp_ms = 300, confidence = 0.6\<rparr>,
      \<lparr>event = ''voice'', timestamp_ms = 900, confidence = 0.5\<rparr>]"
proof -
  let ?xs = "[\<lparr>event = ''bounce'', timestamp_ms = 0, confidence = 0.4\<rparr>,
      \<lparr>event = ''hit'', timestamp_ms = 300, confidence = 0.6\<rparr>,
      \<lparr>event = ''voice'', timestamp_ms = 900, confidence = 0.5\<rparr>]"
  have s: "sorted (map timestamp_ms ?xs)" by simp
  from s dedup_idempotent [OF s, of 500] show ?thesis by simp
qed

text \<open>
  Claim C8. Two timestamp-ordered candidates \<open>e1\<close>, \<open>e2\<close> at most \<open>window_ms\<close> apart
  leave a single event, the one with the higher confidence, which carries the later
  timestamp when the later candidate is the stronger one; candidates strictly more than
  \<open>window_ms\<close> apart are both retained. Candidates at 0 ms (0.4) and 300 ms (0.6) with
  \<open>window_ms = 500\<close> give one event at 300 ms with confidence 0.6; candidates at 0 ms and
  600 ms remain two events.
\<close>

theorem dedup_two_candidates:
  "(if timestamp_ms e2 - timestamp_ms e1 \<le> of_int window_ms
    then dedup window_ms [e1, e2] = [if confidence e2 > confidence e1 then e2 else e1] \<and>
         confidence (last (dedup window_ms [e1, e2])) = max (confidence e1) (confidence e2)
    else dedup window_ms [e1, e2] = [e1, e2]) \<and>
   dedup 500 [\<lparr>event = n1, timestamp_ms = 0, confidence = 0.4\<rparr>,
              \<lparr>event = n2, timestamp_ms = 300, confidence = 0.6\<rparr>] =
     [\<lparr>event = n2, timestamp_ms = 300, confidence = 0.6\<rparr>] \<and>
   dedup 500 [\<lparr>event = n1, timestamp_ms = 0, confidence = c1\<rparr>,
              \<lparr>event = n2, timestamp_ms = 600, confidence = c2\<rparr>] =
     [\<lparr>event = n1, timestamp_ms = 0, confidence = c1\<rparr>,
      \<lparr>event = n2, timestamp_ms = 600, confidence = c2\<rparr>]"
  by (simp add: dedup_def dedup_step_def)

text \<open>
  Claim C10. Deduplication compares timestamps and confidences only, never event names:
  whatever names the candidates carry, the same candidates are retained, so a candidate
  that is not more than \<open>window_ms\<close> after the last retained event is merged with it even
  when the two names differ, and a nearby stronger event of one type displaces a retained
  event of another type (a \<open>point\<close> at 300 ms, 0.6 displaces a \<open>hit\<close> at 0 ms, 0.4).
\<close>

theorem dedup_ignores_event_names:
  "dedup window_ms (map (\<lambda>e. e\<lparr>event := f e\<rparr>) xs) =
     map (\<lambda>e. e\<lparr>event := f e\<rparr>) (dedup window_ms xs) \<and>
   dedup_step window_ms (ds @ [d]) c =
     (if timestamp_ms c - timestamp_ms d > of_int window_ms then ds @ [d, c]
      else if confidence c > confidence d then ds @ [c] else ds @ [d]) \<and>
   dedup 500 [\<lparr>event = ''hit'', timestamp_ms = 0, confidence = 0.4\<rparr>,
              \<lparr>event = ''point'', timestamp_ms = 300, confidence = 0.6\<rparr>] =
     [\<lparr>event = ''point'', timestamp_ms = 300, confidence = 0.6\<rparr>]"
proof (intro conjI)
  show "dedup window_ms (map (\<lambda>e. e\<lparr>event := f e\<rparr>) xs) =
     map (\<lambda>e. e\<lparr>event := f e\<rparr>) (dedup window_ms xs)"
    using foldl_dedup_rename [of window_ms f "[]" xs] by (simp add: dedup_def)
  show "dedup_step window_ms (ds @ [d]) c =
     (if timestamp_ms c - timestamp_ms d > of_int window_ms then ds @ [d, c]
      else if confidence c > confidence d then ds @ [c] else ds @ [d])"
    by (rule dedup_step_snoc)
  show "dedup 500 [\<lparr>event = ''hit'', timestamp_ms = 0, confidence = 0.4\<rparr>,
              \<lparr>event = ''point'', timestamp_ms = 300, confidence = 0.6\<rparr>] =
     [\<lparr>event = ''point'', timestamp_ms = 300, confidence = 0.6\<rparr>]"
    by (simp add: dedup_def dedup_step_def)
qed

end
